theory Spec2Isabelle
  imports Main "HOL-Library.Word"
begin

section \<open>Sparse tuple weights (sparse-tuple-weight.h)\<close>

text \<open>
  \<^verbatim>\<open>template <class W, class K = int> class SparseTupleWeight\<close>.
  The scalar weight class \<open>W\<close> is a type variable \<open>'w\<close>, and the members of \<open>W\<close> that
  the code calls (\<^verbatim>\<open>W::Zero()\<close>, the default constructor \<^verbatim>\<open>W()\<close>, \<^verbatim>\<open>Quantize\<close>, \<^verbatim>\<open>Hash\<close>,
  and the \<^verbatim>\<open>operator!=\<close> that the tuple's \<^verbatim>\<open>operator==\<close> compares scalars with) are
  parameters of the functions that call them. The one test \<^verbatim>\<open>p.second == default_\<close> of
  \<open>Push\<close> is equality of the two values. The key type is the default \<^verbatim>\<open>K = int\<close>; keys are only
  compared with \<^verbatim>\<open>==\<close> and \<^verbatim>\<open><\<close> and hashed, never computed with, so they are
  modelled as \<open>int\<close>.
\<close>

type_synonym 'w Pair = "int \<times> 'w"

text \<open>\<^verbatim>\<open>const static K kNoKey = -1;\<close>\<close>

definition kNoKey :: int where
  "kNoKey = - 1"

text \<open>
  The private members \<^verbatim>\<open>W default_; Pair first_; std::list<Pair> rest_;\<close> are the
  fields \<open>m_default\<close>, \<open>m_first\<close> and \<open>m_rest\<close> (a field name cannot end in an
  underscore). The inline slot \<open>m_first\<close> is a pair, empty when its key is \<open>kNoKey\<close>.
\<close>

record 'w SparseTupleWeight =
  m_default :: 'w
  m_first :: "'w Pair"
  m_rest :: "'w Pair list"

text \<open>
  The members of an object before a constructor body runs: \<open>m_default\<close> is a
  default-constructed \<open>W\<close> (the parameter \<open>W0\<close>), \<open>m_first\<close> a value-initialised pair
  and \<open>m_rest\<close> an empty list.
\<close>

definition new_object :: "'w \<Rightarrow> 'w SparseTupleWeight" where
  "new_object W0 = \<lparr>m_default = W0, m_first = (0, W0), m_rest = []\<rparr>"

text \<open>\<^verbatim>\<open>void Init(const W &default_value)\<close>: only the key of \<open>m_first\<close> is reset.\<close>

definition Init :: "'w \<Rightarrow> 'w SparseTupleWeight \<Rightarrow> 'w SparseTupleWeight" where
  "Init default_value w =
     w\<lparr>m_first := (kNoKey, snd (m_first w)), m_default := default_value, m_rest := []\<rparr>"

text \<open>\<^verbatim>\<open>SparseTupleWeight() { Init(); }\<close> with \<^verbatim>\<open>void Init() { Init(W::Zero()); }\<close>\<close>

definition SparseTupleWeight_default :: "'w \<Rightarrow> 'w \<Rightarrow> 'w SparseTupleWeight" where
  "SparseTupleWeight_default Zero W0 = Init Zero (new_object W0)"

text \<open>\<^verbatim>\<open>explicit SparseTupleWeight(const W &w) { Init(w); }\<close>\<close>

definition SparseTupleWeight_W :: "'w \<Rightarrow> 'w \<Rightarrow> 'w SparseTupleWeight" where
  "SparseTupleWeight_W w W0 = Init w (new_object W0)"


definition DefaultValue :: "'w SparseTupleWeight \<Rightarrow> 'w" where
  "DefaultValue w = m_default w"


text \<open>
  \<^verbatim>\<open>void Push(const Pair &p, bool default_value_check = true)\<close>; the overload
  \<^verbatim>\<open>Push(k, w, default_value_check)\<close> only builds the pair.
\<close>

definition Push :: "'w Pair \<Rightarrow> bool \<Rightarrow> 'w SparseTupleWeight \<Rightarrow> 'w SparseTupleWeight" where
  "Push p default_value_check w =
     (if default_value_check \<and> snd p = m_default w then w
      else if fst (m_first w) = kNoKey then w\<lparr>m_first := p\<rparr>
      else w\<lparr>m_rest := m_rest w @ [p]\<rparr>)"

text \<open>
  \<^verbatim>\<open>template <class Iterator> SparseTupleWeight(Iterator begin, Iterator end)\<close>:
  \<open>Init()\<close>, then one checked \<open>Push\<close> per element. \<open>PushRange\<close> is its loop, a sequence
  of pushes with the default argument \<open>default_value_check = true\<close>.
\<close>

fun PushRange :: "'w Pair list \<Rightarrow> 'w SparseTupleWeight \<Rightarrow> 'w SparseTupleWeight" where
  "PushRange [] w = w"
| "PushRange (p # ps) w = PushRange ps (Push p True w)"

definition SparseTupleWeight_range :: "'w \<Rightarrow> 'w \<Rightarrow> 'w Pair list \<Rightarrow> 'w SparseTupleWeight" where
  "SparseTupleWeight_range Zero W0 ps = PushRange ps (SparseTupleWeight_default Zero W0)"

subsection \<open>The iterator\<close>

text \<open>
  \<^verbatim>\<open>class SparseTupleWeightIterator\<close> holds references to the weight's \<open>first_\<close> and
  \<open>rest_\<close> (\<open>it_first\<close>, \<open>it_rest\<close>), the flag \<open>init_\<close> (\<open>it_init\<close>) and a list
  iterator \<open>iter_\<close> (\<open>it_iter\<close>), modelled as the suffix of \<open>rest_\<close> that starts at
  the iterator's position (\<^verbatim>\<open>rest_.end()\<close> is the empty suffix). The loops that use
  this record (the copy constructor, \<open>Hash\<close>, \<open>Quantize\<close>, \<^verbatim>\<open>operator==\<close>, the combine
  and \<^verbatim>\<open>operator<<\<close>) iterate over a \<open>const\<close> weight and push, if at all, into another
  object, so the references are the values at construction. \<^verbatim>\<open>operator=\<close>, whose two
  operands can be one object, has an iterator into a store further down.
\<close>

record 'w SparseTupleWeightIterator =
  it_first :: "'w Pair"
  it_rest :: "'w Pair list"
  it_init :: bool
  it_iter :: "'w Pair list"

definition Iterator :: "'w SparseTupleWeight \<Rightarrow> 'w SparseTupleWeightIterator" where
  "Iterator w = \<lparr>it_first = m_first w, it_rest = m_rest w, it_init = True, it_iter = m_rest w\<rparr>"

definition Done :: "'w SparseTupleWeightIterator \<Rightarrow> bool" where
  "Done it = (if it_init it then fst (it_first it) = kNoKey else it_iter it = [])"

text \<open>
  \<^verbatim>\<open>Value()\<close> dereferences \<open>it_iter\<close>, which the source leaves undefined at the end of
  the list; every call below is made under \<open>\<not> Done\<close>, where the suffix is not empty
  (lemma \<open>pending_step\<close>).
\<close>

definition Value :: "'w SparseTupleWeightIterator \<Rightarrow> 'w Pair" where
  "Value it = (if it_init it then it_first it else hd (it_iter it))"

definition Next :: "'w SparseTupleWeightIterator \<Rightarrow> 'w SparseTupleWeightIterator" where
  "Next it = (if it_init it then it\<lparr>it_init := False\<rparr> else it\<lparr>it_iter := tl (it_iter it)\<rparr>)"

text \<open>The pairs an iterator has still to yield, and the pairs a fresh iterator yields.\<close>

definition pending :: "'w SparseTupleWeightIterator \<Rightarrow> 'w Pair list" where
  "pending it =
     (if it_init it then (if fst (it_first it) = kNoKey then [] else it_first it # it_iter it)
      else it_iter it)"

definition components :: "'w SparseTupleWeight \<Rightarrow> 'w Pair list" where
  "components w = (if fst (m_first w) = kNoKey then [] else m_first w # m_rest w)"

text \<open>The strictly-increasing-key invariant, over the pairs the iterator yields.\<close>

definition increasing_keys :: "'w Pair list \<Rightarrow> bool" where
  "increasing_keys ps = sorted_wrt (<) (map fst ps)"

lemma pending_Done: "Done it \<Longrightarrow> pending it = []"
  by (simp add: Done_def pending_def split: if_splits)

lemma pending_step: "\<not> Done it \<Longrightarrow> pending it = Value it # pending (Next it)"
  by (cases "it_init it"; cases "it_iter it") (auto simp: Done_def pending_def Value_def Next_def)

lemma pending_Iterator: "pending (Iterator w) = components w"
  by (simp add: pending_def Iterator_def components_def)


subsection \<open>Pushing a sequence of pairs\<close>

lemma Push_m_default [simp]: "m_default (Push p c w) = m_default w"
  by (simp add: Push_def)

lemma PushRange_m_default [simp]: "m_default (PushRange ps w) = m_default w"
  by (induction ps arbitrary: w) simp_all





lemma components_Init [simp]: "components (Init d w) = []"
  by (simp add: components_def Init_def)

lemma Init_fields [simp]:
  "m_default (Init d w) = d" "fst (m_first (Init d w)) = kNoKey" "m_rest (Init d w) = []"
  by (simp_all add: Init_def)




subsection \<open>Copying and assignment\<close>




type_synonym 'w store = "nat \<Rightarrow> 'w SparseTupleWeight"

text \<open>
  \<^verbatim>\<open>operator=\<close> compares the addresses of its two operands, so here the objects live in
  a store, a map from addresses to weights, and the operator takes the addresses \<open>this\<close>
  and \<open>&w\<close>. Its iterator holds references into the object at \<open>&w\<close>: it is the address
  of that object, the flag \<open>init_\<close> and the position of \<open>iter_\<close> in \<open>rest_\<close>, counted
  from \<open>rest_.begin()\<close> (\<open>rest_.end()\<close> is the length of the list), and its members read
  the store as it is when they are called. \<open>Value\<close> is called under \<open>\<not> Done\<close> only,
  where the position is inside the list.
\<close>

record IteratorRef =
  ref_w :: nat
  ref_init :: bool
  ref_iter :: nat

definition Iterator_at :: "nat \<Rightarrow> IteratorRef" where
  "Iterator_at w_addr = \<lparr>ref_w = w_addr, ref_init = True, ref_iter = 0\<rparr>"

definition Done_at :: "IteratorRef \<Rightarrow> 'w store \<Rightarrow> bool" where
  "Done_at it heap =
     (if ref_init it then fst (m_first (heap (ref_w it))) = kNoKey
      else ref_iter it = length (m_rest (heap (ref_w it))))"

definition Value_at :: "IteratorRef \<Rightarrow> 'w store \<Rightarrow> 'w Pair" where
  "Value_at it heap =
     (if ref_init it then m_first (heap (ref_w it)) else m_rest (heap (ref_w it)) ! ref_iter it)"

definition Next_at :: "IteratorRef \<Rightarrow> IteratorRef" where
  "Next_at it = (if ref_init it then it\<lparr>ref_init := False\<rparr> else it\<lparr>ref_iter := ref_iter it + 1\<rparr>)"

text \<open>
  The loop of \<^verbatim>\<open>operator=\<close>, pushing into the object at \<open>this\<close> what the iterator reads.
  Nothing in the loop itself bounds it when both addresses are the same, so it is a
  partial function: \<open>None\<close> is a loop that does not end.
\<close>

partial_function (option) assign_loop ::
  "nat \<Rightarrow> IteratorRef \<Rightarrow> 'w store \<Rightarrow> 'w store option" where
  "assign_loop this_addr it heap =
     (if Done_at it heap then Some heap
      else assign_loop this_addr (Next_at it)
             (heap(this_addr := Push (Value_at it heap) True (heap this_addr))))"

text \<open>
  \<^verbatim>\<open>Init(w.DefaultValue())\<close> on the object at \<open>this\<close>; the statements after the address
  test (\<open>assign_body\<close>); and \<^verbatim>\<open>operator=\<close>, which returns the reference \<open>*this\<close> and the
  store.
\<close>

definition Init_at :: "nat \<Rightarrow> 'w \<Rightarrow> 'w store \<Rightarrow> 'w store" where
  "Init_at this_addr default_value heap = heap(this_addr := Init default_value (heap this_addr))"

definition assign_body :: "nat \<Rightarrow> nat \<Rightarrow> 'w store \<Rightarrow> 'w store option" where
  "assign_body this_addr w_addr heap =
     assign_loop this_addr (Iterator_at w_addr)
       (Init_at this_addr (DefaultValue (heap w_addr)) heap)"

definition operator_assign :: "nat \<Rightarrow> nat \<Rightarrow> 'w store \<Rightarrow> (nat \<times> 'w store) option" where
  "operator_assign this_addr w_addr heap =
     (if this_addr = w_addr then Some (this_addr, heap)
      else
        (case assign_body this_addr w_addr heap of
           None \<Rightarrow> None
         | Some heap' \<Rightarrow> Some (this_addr, heap')))"

subsection \<open>Hash and Quantize\<close>







subsection \<open>The loops as functions of the pairs still to come\<close>












text \<open>
  The pairs an iterator into the store has still to yield. With distinct addresses the
  loop ends and is the copy loop on values; on one address the statements after the
  test would leave the object re-initialised, without its stored components.
\<close>

definition pending_at :: "IteratorRef \<Rightarrow> 'w store \<Rightarrow> 'w Pair list" where
  "pending_at it heap =
     (if ref_init it
      then (if fst (m_first (heap (ref_w it))) = kNoKey then []
            else m_first (heap (ref_w it)) # drop (ref_iter it) (m_rest (heap (ref_w it))))
      else drop (ref_iter it) (m_rest (heap (ref_w it))))"

lemma assign_loop_distinct:
  "ref_w it \<noteq> this_addr \<Longrightarrow> ref_iter it \<le> length (m_rest (heap (ref_w it))) \<Longrightarrow>
   assign_loop this_addr it heap
   = Some (heap(this_addr := PushRange (pending_at it heap) (heap this_addr)))"
proof (induction "length (pending_at it heap)" arbitrary: it heap rule: less_induct)
  case less
  show ?case
  proof (cases "Done_at it heap")
    case True
    then have "pending_at it heap = []"
      using less.prems(2) by (auto simp: Done_at_def pending_at_def split: if_splits)
    then show ?thesis using True by (subst assign_loop.simps) simp
  next
    case False
    let ?h = "heap(this_addr := Push (Value_at it heap) True (heap this_addr))"
    have same: "?h (ref_w it) = heap (ref_w it)" using less.prems(1) by simp
    have st: "pending_at it heap = Value_at it heap # pending_at (Next_at it) ?h"
      using False less.prems
      by (auto simp: Done_at_def pending_at_def Value_at_def Next_at_def Cons_nth_drop_Suc
          split: if_splits)
    have w: "ref_w (Next_at it) \<noteq> this_addr" using less.prems(1) by (simp add: Next_at_def)
    have b: "ref_iter (Next_at it) \<le> length (m_rest (?h (ref_w (Next_at it))))"
      using False less.prems by (auto simp: Next_at_def Done_at_def split: if_splits)
    have "assign_loop this_addr (Next_at it) ?h
          = Some (?h(this_addr := PushRange (pending_at (Next_at it) ?h) (?h this_addr)))"
      using less.hyps [of "Next_at it" ?h] w b by (simp add: st)
    then show ?thesis using False
      by (subst assign_loop.simps) (simp add: st)
  qed
qed

lemma operator_assign_distinct:
  assumes "this_addr \<noteq> w_addr"
  shows "operator_assign this_addr w_addr heap
   = Some (this_addr,
       heap(this_addr :=
         PushRange (components (heap w_addr)) (Init (DefaultValue (heap w_addr)) (heap this_addr))))"
proof -
  let ?h = "Init_at this_addr (DefaultValue (heap w_addr)) heap"
  have w: "ref_w (Iterator_at w_addr) \<noteq> this_addr" using assms by (simp add: Iterator_at_def)
  have b: "ref_iter (Iterator_at w_addr) \<le> length (m_rest (?h (ref_w (Iterator_at w_addr))))"
    by (simp add: Iterator_at_def)
  have p: "pending_at (Iterator_at w_addr) ?h = components (heap w_addr)"
    using assms by (simp add: pending_at_def Iterator_at_def Init_at_def components_def)
  show ?thesis
    using assms
      assign_loop_distinct [where it = "Iterator_at w_addr" and this_addr = this_addr
        and heap = ?h, OF w b]
    by (simp add: operator_assign_def assign_body_def p) (simp add: Init_at_def)
qed

lemma assign_body_aliased:
  "assign_body a a heap = Some (heap(a := Init (DefaultValue (heap a)) (heap a)))"
  by (subst assign_body_def, subst assign_loop.simps)
     (simp add: Done_at_def Iterator_at_def Init_at_def)

text \<open>
  Claim C9. Assigning a weight to itself is the identity: when both operands are the
  same object, \<^verbatim>\<open>operator=\<close> returns at the address test, before \<open>Init\<close>. It returns
  the reference to the object, and the store, so the default and the stored components of
  the object, are as they were.
\<close>

theorem self_assignment_identity:
  "operator_assign a a heap = Some (a, heap)
   \<and> map_option (\<lambda>(r, h). (DefaultValue (h r), components (h r), m_first (h r), m_rest (h r)))
        (operator_assign a a heap)
       = Some (DefaultValue (heap a), components (heap a), m_first (heap a), m_rest (heap a))"
  by (simp add: operator_assign_def)




subsection \<open>Equality\<close>

text \<open>
  \<^verbatim>\<open>operator==\<close> on tuple weights compares scalars with \<open>W\<close>'s own \<^verbatim>\<open>operator!=\<close> (on the
  defaults and in the three branches of the loop). That operator belongs to the scalar
  class: it is the parameter \<open>WNe\<close>, of which nothing is assumed here. \<^verbatim>\<open>return false\<close>
  ends the loop with \<open>False\<close>; leaving the loop gives \<^verbatim>\<open>return true\<close>.
\<close>

function eq_loop ::
  "('w \<Rightarrow> 'w \<Rightarrow> bool) \<Rightarrow> 'w \<Rightarrow> 'w \<Rightarrow> 'w SparseTupleWeightIterator \<Rightarrow>
   'w SparseTupleWeightIterator \<Rightarrow> bool" where
  "eq_loop WNe v1_def v2_def w1_it w2_it =
     (if \<not> Done w1_it \<or> \<not> Done w2_it then
        (let k1 = (if Done w1_it then fst (Value w2_it) else fst (Value w1_it));
             k2 = (if Done w2_it then fst (Value w1_it) else fst (Value w2_it));
             v1 = (if Done w1_it then v1_def else snd (Value w1_it));
             v2 = (if Done w2_it then v2_def else snd (Value w2_it))
         in if k1 = k2 then
              (if WNe v1 v2 then False
               else eq_loop WNe v1_def v2_def
                      (if \<not> Done w1_it then Next w1_it else w1_it)
                      (if \<not> Done w2_it then Next w2_it else w2_it))
            else if k1 < k2 then
              (if WNe v1 v2_def then False else eq_loop WNe v1_def v2_def (Next w1_it) w2_it)
            else
              (if WNe v1_def v2 then False else eq_loop WNe v1_def v2_def w1_it (Next w2_it)))
      else True)"
  by pat_completeness auto
termination
  by (relation "measure (\<lambda>(WNe, v1_def, v2_def, w1_it, w2_it).
        length (pending w1_it) + length (pending w2_it))")
     (auto simp: pending_step pending_Done split: if_splits)

declare eq_loop.simps [simp del]

definition operator_eq ::
  "('w \<Rightarrow> 'w \<Rightarrow> bool) \<Rightarrow> 'w SparseTupleWeight \<Rightarrow> 'w SparseTupleWeight \<Rightarrow> bool" where
  "operator_eq WNe w1 w2 =
     (if WNe (DefaultValue w1) (DefaultValue w2) then False
      else eq_loop WNe (DefaultValue w1) (DefaultValue w2) (Iterator w1) (Iterator w2))"

text \<open>
  What the claim about \<^verbatim>\<open>operator==\<close> needs of the scalar: that its \<^verbatim>\<open>operator!=\<close> is the
  complement of an equivalence relation.
\<close>

definition scalar_equivalence :: "('w \<Rightarrow> 'w \<Rightarrow> bool) \<Rightarrow> bool" where
  "scalar_equivalence WNe =
     ((\<forall>a. \<not> WNe a a) \<and> (\<forall>a b. WNe a b \<longrightarrow> WNe b a)
      \<and> (\<forall>a b c. \<not> WNe a b \<longrightarrow> \<not> WNe b c \<longrightarrow> \<not> WNe a c))"

text \<open>
  The comparison of a scalar class with a value that is unequal to everything, itself
  included, as a floating-point weight has in its not-a-number: \<open>None\<close> is that value.
\<close>

definition nan_ne :: "int option \<Rightarrow> int option \<Rightarrow> bool" where
  "nan_ne a b = (case (a, b) of (Some x, Some y) \<Rightarrow> x \<noteq> y | _ \<Rightarrow> True)"

text \<open>
  The same walk over the two lists of pairs still to come; \<open>eq_loop_pending\<close> shows that
  the loop computes it.
\<close>

fun eq_walk :: "('w \<Rightarrow> 'w \<Rightarrow> bool) \<Rightarrow> 'w \<Rightarrow> 'w \<Rightarrow> 'w Pair list \<Rightarrow> 'w Pair list \<Rightarrow> bool" where
  "eq_walk ne d1 d2 [] [] = True"
| "eq_walk ne d1 d2 [] (y # ys) = (\<not> ne d1 (snd y) \<and> eq_walk ne d1 d2 [] ys)"
| "eq_walk ne d1 d2 (x # xs) [] = (\<not> ne (snd x) d2 \<and> eq_walk ne d1 d2 xs [])"
| "eq_walk ne d1 d2 (x # xs) (y # ys) =
     (if fst x = fst y then \<not> ne (snd x) (snd y) \<and> eq_walk ne d1 d2 xs ys
      else if fst x < fst y then \<not> ne (snd x) d2 \<and> eq_walk ne d1 d2 xs (y # ys)
      else \<not> ne d1 (snd y) \<and> eq_walk ne d1 d2 (x # xs) ys)"

lemma eq_loop_pending:
  "eq_loop ne d1 d2 it1 it2 = eq_walk ne d1 d2 (pending it1) (pending it2)"
proof (induction "length (pending it1) + length (pending it2)" arbitrary: it1 it2
    rule: less_induct)
  case less
  have both: "eq_loop ne d1 d2 (Next it1) (Next it2)
              = eq_walk ne d1 d2 (pending (Next it1)) (pending (Next it2))"
    if "\<not> Done it1" "\<not> Done it2"
    by (rule less.hyps) (simp add: pending_step [OF that(1)] pending_step [OF that(2)])
  have left: "eq_loop ne d1 d2 (Next it1) it2
              = eq_walk ne d1 d2 (pending (Next it1)) (pending it2)"
    if "\<not> Done it1"
    by (rule less.hyps) (simp add: pending_step [OF that])
  have right: "eq_loop ne d1 d2 it1 (Next it2)
               = eq_walk ne d1 d2 (pending it1) (pending (Next it2))"
    if "\<not> Done it2"
    by (rule less.hyps) (simp add: pending_step [OF that])
  show ?case
  proof (cases "Done it1")
    case d1: True
    show ?thesis
    proof (cases "Done it2")
      case True
      then show ?thesis using d1 by (simp add: eq_loop.simps [of _ _ _ it1 it2] pending_Done)
    next
      case False
      then show ?thesis using d1 right [OF False]
        by (auto simp: eq_loop.simps [of _ _ _ it1 it2] pending_Done pending_step [of it2]
            Let_def)
    qed
  next
    case n1: False
    show ?thesis
    proof (cases "Done it2")
      case True
      then show ?thesis using n1 left [OF n1]
        by (auto simp: eq_loop.simps [of _ _ _ it1 it2] pending_Done pending_step [of it1]
            Let_def)
    next
      case False
      have l: "eq_loop ne d1 d2 (Next it1) it2
               = eq_walk ne d1 d2 (pending (Next it1)) (Value it2 # pending (Next it2))"
        using left [OF n1] by (simp add: pending_step [OF False])
      have r: "eq_loop ne d1 d2 it1 (Next it2)
               = eq_walk ne d1 d2 (Value it1 # pending (Next it1)) (pending (Next it2))"
        using right [OF False] by (simp add: pending_step [OF n1])
      show ?thesis using n1 False both [OF n1 False] l r
        by (auto simp: eq_loop.simps [of _ _ _ it1 it2] pending_step [of it1]
            pending_step [of it2] Let_def)
    qed
  qed
qed

text \<open>
  The value a weight with default \<open>d\<close> and stored pairs \<open>ps\<close> has at key \<open>k\<close>: the stored
  value, or the default for a key that is not stored.
\<close>

definition value_at :: "'w \<Rightarrow> 'w Pair list \<Rightarrow> int \<Rightarrow> 'w" where
  "value_at d ps k = (case map_of ps k of None \<Rightarrow> d | Some v \<Rightarrow> v)"

lemma value_at_Cons: "value_at d (p # ps) k = (if k = fst p then snd p else value_at d ps k)"
  by (cases p) (simp add: value_at_def)

lemma value_at_Nil: "value_at d [] k = d"
  by (simp add: value_at_def)

lemma value_at_notin: "k \<notin> fst ` set ps \<Longrightarrow> value_at d ps k = d"
  by (induction ps) (auto simp: value_at_Cons value_at_Nil)

lemma increasing_keys_Cons:
  "increasing_keys (x # xs) = ((\<forall>p\<in>set xs. fst x < fst p) \<and> increasing_keys xs)"
  by (auto simp: increasing_keys_def)

lemma all_keys_split: "(\<forall>k. P k) = (P c \<and> (\<forall>k. k \<noteq> c \<longrightarrow> P k))" for c :: int
  by auto

text \<open>
  On strictly increasing keys, and with defaults that \<open>ne\<close> does not tell apart, the walk
  succeeds exactly when \<open>ne\<close> tells the two values apart at no key. Nothing is assumed
  of \<open>ne\<close>.
\<close>

lemma eq_walk_value_at:
  "increasing_keys xs \<Longrightarrow> increasing_keys ys \<Longrightarrow> \<not> ne d1 d2 \<Longrightarrow>
   eq_walk ne d1 d2 xs ys = (\<forall>k. \<not> ne (value_at d1 xs k) (value_at d2 ys k))"
proof (induction "length xs + length ys" arbitrary: xs ys rule: less_induct)
  case less
  note dd = less.prems(3)
  show ?case
  proof (cases xs)
    case xn: Nil
    show ?thesis
    proof (cases ys)
      case Nil
      then show ?thesis using xn dd by (simp add: value_at_Nil)
    next
      case ys: (Cons y ys')
      have iy: "increasing_keys ys'" and by': "\<forall>p\<in>set ys'. fst y < fst p"
        using less.prems ys by (simp_all add: increasing_keys_Cons)
      have ny: "value_at d2 ys' (fst y) = d2"
        using by' by (intro value_at_notin) auto
      have ih: "eq_walk ne d1 d2 [] ys' = (\<forall>k. \<not> ne (value_at d1 [] k) (value_at d2 ys' k))"
        using less.hyps [of "[]" ys'] iy dd xn ys by (simp add: increasing_keys_def)
      have w: "eq_walk ne d1 d2 xs ys = (\<not> ne d1 (snd y) \<and> eq_walk ne d1 d2 [] ys')"
        using xn ys by simp
      have l: "(\<forall>k. \<not> ne (value_at d1 xs k) (value_at d2 ys k))
               = (\<not> ne d1 (snd y)
                  \<and> (\<forall>k. k \<noteq> fst y \<longrightarrow> \<not> ne (value_at d1 [] k) (value_at d2 ys' k)))"
        unfolding xn ys
        by (subst all_keys_split [of _ "fst y"]) (simp add: value_at_Cons value_at_Nil)
      have r: "(\<forall>k. \<not> ne (value_at d1 [] k) (value_at d2 ys' k))
               = (\<forall>k. k \<noteq> fst y \<longrightarrow> \<not> ne (value_at d1 [] k) (value_at d2 ys' k))"
        by (subst all_keys_split [of _ "fst y"]) (simp add: value_at_Nil ny dd)
      show ?thesis unfolding w ih l r ..
    qed
  next
    case xs: (Cons x xs')
    have ix: "increasing_keys xs'" and bx: "\<forall>p\<in>set xs'. fst x < fst p"
      using less.prems xs by (simp_all add: increasing_keys_Cons)
    have nx: "value_at d1 xs' (fst x) = d1"
      using bx by (intro value_at_notin) auto
    show ?thesis
    proof (cases ys)
      case yn: Nil
      have ih: "eq_walk ne d1 d2 xs' [] = (\<forall>k. \<not> ne (value_at d1 xs' k) (value_at d2 [] k))"
        using less.hyps [of xs' "[]"] ix dd xs yn by (simp add: increasing_keys_def)
      have w: "eq_walk ne d1 d2 xs ys = (\<not> ne (snd x) d2 \<and> eq_walk ne d1 d2 xs' [])"
        using xs yn by simp
      have l: "(\<forall>k. \<not> ne (value_at d1 xs k) (value_at d2 ys k))
               = (\<not> ne (snd x) d2
                  \<and> (\<forall>k. k \<noteq> fst x \<longrightarrow> \<not> ne (value_at d1 xs' k) (value_at d2 [] k)))"
        unfolding xs yn
        by (subst all_keys_split [of _ "fst x"]) (simp add: value_at_Cons value_at_Nil)
      have r: "(\<forall>k. \<not> ne (value_at d1 xs' k) (value_at d2 [] k))
               = (\<forall>k. k \<noteq> fst x \<longrightarrow> \<not> ne (value_at d1 xs' k) (value_at d2 [] k))"
        by (subst all_keys_split [of _ "fst x"]) (simp add: value_at_Nil nx dd)
      show ?thesis unfolding w ih l r ..
    next
      case ys: (Cons y ys')
      have iy: "increasing_keys ys'" and by': "\<forall>p\<in>set ys'. fst y < fst p"
        using less.prems ys by (simp_all add: increasing_keys_Cons)
      have ny: "value_at d2 ys' (fst y) = d2"
        using by' by (intro value_at_notin) auto
      consider (eq) "fst x = fst y" | (lt) "fst x < fst y" | (gt) "fst y < fst x"
        by linarith
      then show ?thesis
      proof cases
        case eq
        have ih: "eq_walk ne d1 d2 xs' ys'
                  = (\<forall>k. \<not> ne (value_at d1 xs' k) (value_at d2 ys' k))"
          using less.hyps [of xs' ys'] ix iy dd xs ys by simp
        have w: "eq_walk ne d1 d2 xs ys = (\<not> ne (snd x) (snd y) \<and> eq_walk ne d1 d2 xs' ys')"
          using eq xs ys by simp
        have l: "(\<forall>k. \<not> ne (value_at d1 xs k) (value_at d2 ys k))
                 = (\<not> ne (snd x) (snd y)
                    \<and> (\<forall>k. k \<noteq> fst x \<longrightarrow> \<not> ne (value_at d1 xs' k) (value_at d2 ys' k)))"
          unfolding xs ys
          by (subst all_keys_split [of _ "fst x"]) (simp add: value_at_Cons eq)
        have r: "(\<forall>k. \<not> ne (value_at d1 xs' k) (value_at d2 ys' k))
                 = (\<forall>k. k \<noteq> fst x \<longrightarrow> \<not> ne (value_at d1 xs' k) (value_at d2 ys' k))"
          by (subst all_keys_split [of _ "fst x"]) (simp add: nx ny [folded eq] dd)
        show ?thesis unfolding w ih l r ..
      next
        case lt
        have ih: "eq_walk ne d1 d2 xs' ys = (\<forall>k. \<not> ne (value_at d1 xs' k) (value_at d2 ys k))"
          using less.hyps [of xs' ys] ix less.prems(2) dd xs by simp
        have yx: "value_at d2 ys (fst x) = d2"
          using lt by' ys by (intro value_at_notin) auto
        have w: "eq_walk ne d1 d2 xs ys = (\<not> ne (snd x) d2 \<and> eq_walk ne d1 d2 xs' ys)"
          using lt xs ys by simp
        have l: "(\<forall>k. \<not> ne (value_at d1 xs k) (value_at d2 ys k))
                 = (\<not> ne (snd x) d2
                    \<and> (\<forall>k. k \<noteq> fst x \<longrightarrow> \<not> ne (value_at d1 xs' k) (value_at d2 ys k)))"
          unfolding xs
          by (subst all_keys_split [of _ "fst x"]) (simp add: value_at_Cons yx)
        have r: "(\<forall>k. \<not> ne (value_at d1 xs' k) (value_at d2 ys k))
                 = (\<forall>k. k \<noteq> fst x \<longrightarrow> \<not> ne (value_at d1 xs' k) (value_at d2 ys k))"
          by (subst all_keys_split [of _ "fst x"]) (simp add: nx yx dd)
        show ?thesis unfolding w ih l r ..
      next
        case gt
        have ih: "eq_walk ne d1 d2 xs ys' = (\<forall>k. \<not> ne (value_at d1 xs k) (value_at d2 ys' k))"
          using less.hyps [of xs ys'] iy less.prems(1) dd ys by simp
        have xy: "value_at d1 xs (fst y) = d1"
          using gt bx xs by (intro value_at_notin) auto
        have w: "eq_walk ne d1 d2 xs ys = (\<not> ne d1 (snd y) \<and> eq_walk ne d1 d2 xs ys')"
          using gt xs ys by simp
        have l: "(\<forall>k. \<not> ne (value_at d1 xs k) (value_at d2 ys k))
                 = (\<not> ne d1 (snd y)
                    \<and> (\<forall>k. k \<noteq> fst y \<longrightarrow> \<not> ne (value_at d1 xs k) (value_at d2 ys' k)))"
          unfolding ys
          by (subst all_keys_split [of _ "fst y"]) (simp add: value_at_Cons xy)
        have r: "(\<forall>k. \<not> ne (value_at d1 xs k) (value_at d2 ys' k))
                 = (\<forall>k. k \<noteq> fst y \<longrightarrow> \<not> ne (value_at d1 xs k) (value_at d2 ys' k))"
          by (subst all_keys_split [of _ "fst y"]) (simp add: ny xy dd)
        show ?thesis unfolding w ih l r ..
      qed
    qed
  qed
qed

lemma operator_eq_walk:
  "operator_eq ne w1 w2 =
     (\<not> ne (m_default w1) (m_default w2)
      \<and> eq_walk ne (m_default w1) (m_default w2) (components w1) (components w2))"
  by (simp add: operator_eq_def DefaultValue_def eq_loop_pending pending_Iterator)

lemma operator_eq_value_at:
  assumes "increasing_keys (components w1)" and "increasing_keys (components w2)"
  shows "operator_eq ne w1 w2 =
     (\<not> ne (m_default w1) (m_default w2)
      \<and> (\<forall>k. \<not> ne (value_at (m_default w1) (components w1) k)
                  (value_at (m_default w2) (components w2) k)))"
proof (cases "ne (m_default w1) (m_default w2)")
  case True
  then show ?thesis by (simp add: operator_eq_walk)
next
  case False
  show ?thesis
    unfolding operator_eq_walk
      eq_walk_value_at [where ne = ne and ?d1.0 = "m_default w1" and ?d2.0 = "m_default w2",
        OF assms False] ..
qed

text \<open>
  Claim C6, as amended. When the scalar's \<^verbatim>\<open>operator!=\<close> is the complement of an
  equivalence relation, \<^verbatim>\<open>operator==\<close> on weights whose stored keys are strictly
  increasing is reflexive, symmetric and transitive; and it holds of two such weights
  exactly when the scalar comparison tells apart neither the two defaults nor, at any
  key, the two values (a key that one weight does not store has that weight's default).
\<close>

theorem operator_eq_equivalence:
  assumes "scalar_equivalence WNe"
    and "increasing_keys (components w1)" and "increasing_keys (components w2)"
    and "increasing_keys (components w3)"
  shows "operator_eq WNe w1 w1
       \<and> (operator_eq WNe w1 w2 \<longrightarrow> operator_eq WNe w2 w1)
       \<and> (operator_eq WNe w1 w2 \<and> operator_eq WNe w2 w3 \<longrightarrow> operator_eq WNe w1 w3)
       \<and> operator_eq WNe w1 w2
           = (\<not> WNe (DefaultValue w1) (DefaultValue w2)
              \<and> (\<forall>k. \<not> WNe (value_at (DefaultValue w1) (components w1) k)
                          (value_at (DefaultValue w2) (components w2) k)))"
proof -
  have rf: "\<not> WNe a a" for a
    using assms(1) by (simp add: scalar_equivalence_def)
  have sy: "\<not> WNe b a" if "\<not> WNe a b" for a b
    using assms(1) that unfolding scalar_equivalence_def by blast
  have tr: "\<not> WNe a c" if "\<not> WNe a b" "\<not> WNe b c" for a b c
    using assms(1) that unfolding scalar_equivalence_def by blast
  note c11 = operator_eq_value_at [OF assms(2) assms(2), of WNe]
  note c12 = operator_eq_value_at [OF assms(2) assms(3), of WNe]
  note c21 = operator_eq_value_at [OF assms(3) assms(2), of WNe]
  note c23 = operator_eq_value_at [OF assms(3) assms(4), of WNe]
  note c13 = operator_eq_value_at [OF assms(2) assms(4), of WNe]
  have refl: "operator_eq WNe w1 w1"
    unfolding c11 using rf by simp
  have sym: "operator_eq WNe w2 w1" if "operator_eq WNe w1 w2"
  proof -
    have p: "\<not> WNe (m_default w1) (m_default w2)"
      and v: "\<And>k. \<not> WNe (value_at (m_default w1) (components w1) k)
                        (value_at (m_default w2) (components w2) k)"
      using that unfolding c12 by blast+
    show ?thesis unfolding c21 using sy [OF p] sy [OF v] by blast
  qed
  have trans: "operator_eq WNe w1 w3" if "operator_eq WNe w1 w2" "operator_eq WNe w2 w3"
  proof -
    have p12: "\<not> WNe (m_default w1) (m_default w2)"
      and v12: "\<And>k. \<not> WNe (value_at (m_default w1) (components w1) k)
                          (value_at (m_default w2) (components w2) k)"
      using that(1) unfolding c12 by blast+
    have p23: "\<not> WNe (m_default w2) (m_default w3)"
      and v23: "\<And>k. \<not> WNe (value_at (m_default w2) (components w2) k)
                          (value_at (m_default w3) (components w3) k)"
      using that(2) unfolding c23 by blast+
    show ?thesis unfolding c13 using tr [OF p12 p23] tr [OF v12 v23] by blast
  qed
  show ?thesis
    unfolding DefaultValue_def using refl sym trans c12 by blast
qed

theorem operator_eq_equivalence_witness:
  "scalar_equivalence ((\<noteq>) :: int \<Rightarrow> int \<Rightarrow> bool)
   \<and> increasing_keys (components (SparseTupleWeight_range (0 :: int) 0 [(1, 5), (3, 7)]))
   \<and> increasing_keys (components
        (PushRange [(3, 7)] (Push (2, 0) False (SparseTupleWeight_range (0 :: int) 0 [(1, 5)]))))
   \<and> increasing_keys (components (SparseTupleWeight_range (0 :: int) 0 [(1, 5), (2, 0), (3, 7)]))
   \<and> components
        (PushRange [(3, 7)] (Push (2, 0) False (SparseTupleWeight_range (0 :: int) 0 [(1, 5)])))
       = [(1, 5), (2, 0), (3, 7)]
   \<and> operator_eq (\<noteq>) (SparseTupleWeight_range (0 :: int) 0 [(1, 5), (3, 7)])
        (PushRange [(3, 7)] (Push (2, 0) False (SparseTupleWeight_range (0 :: int) 0 [(1, 5)])))
   \<and> operator_eq (\<noteq>)
        (PushRange [(3, 7)] (Push (2, 0) False (SparseTupleWeight_range (0 :: int) 0 [(1, 5)])))
        (SparseTupleWeight_range (0 :: int) 0 [(1, 5), (3, 7)])
   \<and> operator_eq (\<noteq>) (SparseTupleWeight_range (0 :: int) 0 [(1, 5), (3, 7)])
        (SparseTupleWeight_range (0 :: int) 0 [(1, 5), (2, 0), (3, 7)])
   \<and> \<not> operator_eq (\<noteq>) (SparseTupleWeight_range (0 :: int) 0 [(1, 5), (3, 7)])
        (SparseTupleWeight_range (0 :: int) 0 [(1, 5), (3, 8)])"
proof -
  let ?w1 = "SparseTupleWeight_range (0 :: int) 0 [(1, 5), (3, 7)]"
  let ?w2 = "PushRange [(3, 7)] (Push (2, 0) False (SparseTupleWeight_range (0 :: int) 0 [(1, 5)]))"
  let ?w3 = "SparseTupleWeight_range (0 :: int) 0 [(1, 5), (2, 0), (3, 7)]"
  let ?w4 = "SparseTupleWeight_range (0 :: int) 0 [(1, 5), (3, 8)]"
  have se: "scalar_equivalence ((\<noteq>) :: int \<Rightarrow> int \<Rightarrow> bool)"
    by (simp add: scalar_equivalence_def)
  have c1: "components ?w1 = [(1, 5), (3, 7)]"
    by (simp add: SparseTupleWeight_range_def SparseTupleWeight_default_def Push_def Init_def
        new_object_def components_def kNoKey_def)
  have c2: "components ?w2 = [(1, 5), (2, 0), (3, 7)]"
    by (simp add: SparseTupleWeight_range_def SparseTupleWeight_default_def Push_def Init_def
        new_object_def components_def kNoKey_def)
  have c3: "components ?w3 = [(1, 5), (3, 7)]"
    by (simp add: SparseTupleWeight_range_def SparseTupleWeight_default_def Push_def Init_def
        new_object_def components_def kNoKey_def)
  have c4: "components ?w4 = [(1, 5), (3, 8)]"
    by (simp add: SparseTupleWeight_range_def SparseTupleWeight_default_def Push_def Init_def
        new_object_def components_def kNoKey_def)
  have d1: "m_default ?w1 = 0" and d2: "m_default ?w2 = 0" and d3: "m_default ?w3 = 0"
    and d4: "m_default ?w4 = 0"
    by (simp_all add: SparseTupleWeight_range_def SparseTupleWeight_default_def)
  have i1: "increasing_keys (components ?w1)" unfolding c1 by (simp add: increasing_keys_def)
  have i2: "increasing_keys (components ?w2)" unfolding c2 by (simp add: increasing_keys_def)
  have i3: "increasing_keys (components ?w3)" unfolding c3 by (simp add: increasing_keys_def)
  have i4: "increasing_keys (components ?w4)" unfolding c4 by (simp add: increasing_keys_def)
  have e12: "operator_eq (\<noteq>) ?w1 ?w2" unfolding operator_eq_walk c1 c2 d1 d2 by simp
  have e23: "operator_eq (\<noteq>) ?w2 ?w3" unfolding operator_eq_walk c2 c3 d2 d3 by simp
  note th = operator_eq_equivalence [OF se i1 i2 i3]
  have e21: "operator_eq (\<noteq>) ?w2 ?w1" using th e12 by blast
  have e13: "operator_eq (\<noteq>) ?w1 ?w3" using th e12 e23 by blast
  have "operator_eq (\<noteq>) ?w1 ?w4
        = (\<not> DefaultValue ?w1 \<noteq> DefaultValue ?w4
           \<and> (\<forall>k. \<not> value_at (DefaultValue ?w1) (components ?w1) k
                      \<noteq> value_at (DefaultValue ?w4) (components ?w4) k))"
    using operator_eq_equivalence [OF se i1 i4 i4] by blast
  moreover have "value_at (DefaultValue ?w1) (components ?w1) 3
                 \<noteq> value_at (DefaultValue ?w4) (components ?w4) 3"
    unfolding c1 c4 by (simp add: value_at_def)
  ultimately have n14: "\<not> operator_eq (\<noteq>) ?w1 ?w4" by blast
  show ?thesis by (intro conjI se i1 i2 i3 c2 e12 e21 e13 n14)
qed

text \<open>
  Claim C6 as stated covers every weight with increasing keys, over any scalar class.
  Over a scalar with a value that its own comparison finds unequal to itself, the
  weight \<open>SparseTupleWeight(W::NoWeight())\<close> of the header's \<open>NoWeight()\<close>, with that
  value as default and no stored component, is not equal to itself.
\<close>

theorem operator_eq_not_reflexive_counterexample:
  "increasing_keys (components (SparseTupleWeight_W (None :: int option) None))
   \<and> nan_ne None None
   \<and> \<not> operator_eq nan_ne (SparseTupleWeight_W (None :: int option) None)
        (SparseTupleWeight_W (None :: int option) None)"
  by (simp add: operator_eq_def DefaultValue_def SparseTupleWeight_W_def nan_ne_def
      increasing_keys_def components_def)

subsection \<open>The generic combine\<close>





















subsection \<open>Reading and writing\<close>





























section \<open>The generic register (generic-register.h)\<close>

text \<open>
  \<^verbatim>\<open>template <class KeyType, class EntryType, class RegisterType> class GenericRegister\<close>.
  The only non-static member is \<^verbatim>\<open>std::map<KeyType, EntryType> register_table_\<close>, a
  finite map with unique keys: the state of a register is that map. \<open>MutexLock\<close>
  serialises the calls; the model is the sequential behaviour of each call.
\<close>

type_synonym ('k, 'e) RegisterMapType = "'k \<rightharpoonup> 'e"

text \<open>
  \<^verbatim>\<open>register_table_.insert(std::make_pair(key, entry))\<close>: \<open>std::map::insert\<close> adds the
  pair only when the map has no element with that key.
\<close>

definition SetEntry :: "'k \<Rightarrow> 'e \<Rightarrow> ('k, 'e) RegisterMapType \<Rightarrow> ('k, 'e) RegisterMapType" where
  "SetEntry key entry register_table =
     (case register_table key of
        Some present \<Rightarrow> register_table
      | None \<Rightarrow> register_table(key \<mapsto> entry))"

text \<open>
  \<^verbatim>\<open>LookupEntry\<close> returns a pointer to the stored entry, or \<open>nullptr\<close> (\<open>None\<close>) when
  \<open>find\<close> reaches \<open>end()\<close>.
\<close>

definition LookupEntry :: "'k \<Rightarrow> ('k, 'e) RegisterMapType \<Rightarrow> 'e option" where
  "LookupEntry key register_table = register_table key"

text \<open>
  A loaded shared object registers entries from the constructors of its static
  \<^verbatim>\<open>GenericRegisterer\<close> objects, each of which calls \<open>SetEntry\<close> once
  (\<^verbatim>\<open>reg->SetEntry(key, entry)\<close>); \<open>register_table_\<close> is private, so this is the only
  way the load changes the table. The dynamic loader is a parameter \<open>dlopen\<close>: for a
  file name, \<open>None\<close> when \<^verbatim>\<open>dlopen\<close> returns \<open>nullptr\<close>, or the registrations that
  the object's initialisers perform, in order.
\<close>

fun RunRegisterers :: "('k \<times> 'e) list \<Rightarrow> ('k, 'e) RegisterMapType \<Rightarrow> ('k, 'e) RegisterMapType" where
  "RunRegisterers [] register_table = register_table"
| "RunRegisterers ((key, entry) # registerers) register_table =
     RunRegisterers registerers (SetEntry key entry register_table)"

text \<open>
  \<^verbatim>\<open>LoadEntryFromSharedObject\<close>, with the build flag \<^verbatim>\<open>FST_NO_DYNAMIC_LINKING\<close>, the pure
  virtual \<^verbatim>\<open>ConvertKeyToSoFilename\<close> and the value-initialised \<^verbatim>\<open>EntryType()\<close> as
  parameters. \<^verbatim>\<open>LOG(ERROR)\<close> prints a message and returns;
  \<^verbatim>\<open>RUN_MODULE_INITIALIZERS\<close>, where it is defined, runs initialisers of the loaded
  object and is part of what \<open>dlopen\<close> stands for. The function gives back the entry
  and the table as the load left it.
\<close>

definition LoadEntryFromSharedObject ::
  "bool \<Rightarrow> ('k \<Rightarrow> string) \<Rightarrow> (string \<Rightarrow> ('k \<times> 'e) list option) \<Rightarrow> 'e \<Rightarrow> 'k \<Rightarrow>
   ('k, 'e) RegisterMapType \<Rightarrow> 'e \<times> ('k, 'e) RegisterMapType" where
  "LoadEntryFromSharedObject FST_NO_DYNAMIC_LINKING ConvertKeyToSoFilename dlopen EntryType0
     key register_table =
     (if FST_NO_DYNAMIC_LINKING then (EntryType0, register_table)
      else
        (case dlopen (ConvertKeyToSoFilename key) of
           None \<Rightarrow> (EntryType0, register_table)
         | Some registerers \<Rightarrow>
             (let loaded = RunRegisterers registerers register_table in
              (case LookupEntry key loaded of
                 None \<Rightarrow> (EntryType0, loaded)
               | Some entry \<Rightarrow> (entry, loaded)))))"

definition GetEntry ::
  "bool \<Rightarrow> ('k \<Rightarrow> string) \<Rightarrow> (string \<Rightarrow> ('k \<times> 'e) list option) \<Rightarrow> 'e \<Rightarrow> 'k \<Rightarrow>
   ('k, 'e) RegisterMapType \<Rightarrow> 'e \<times> ('k, 'e) RegisterMapType" where
  "GetEntry FST_NO_DYNAMIC_LINKING ConvertKeyToSoFilename dlopen EntryType0 key register_table =
     (case LookupEntry key register_table of
        Some entry \<Rightarrow> (entry, register_table)
      | None \<Rightarrow>
          LoadEntryFromSharedObject FST_NO_DYNAMIC_LINKING ConvertKeyToSoFilename dlopen
            EntryType0 key register_table)"

lemma LookupEntry_SetEntry_same:
  "LookupEntry k (SetEntry k e t) = (case LookupEntry k t of None \<Rightarrow> Some e | Some e0 \<Rightarrow> Some e0)"
  by (simp add: LookupEntry_def SetEntry_def split: option.splits)

lemma LookupEntry_SetEntry_other:
  "k' \<noteq> k \<Longrightarrow> LookupEntry k' (SetEntry k e t) = LookupEntry k' t"
  by (simp add: LookupEntry_def SetEntry_def split: option.splits)

lemma GetEntry_hit:
  "LookupEntry k t = Some e \<Longrightarrow> GetEntry nd conv dl e0 k t = (e, t)"
  by (simp add: GetEntry_def)

lemma LookupEntry_RunRegisterers_kept:
  "LookupEntry k t = Some e \<Longrightarrow> LookupEntry k (RunRegisterers regs t) = Some e"
proof (induction regs arbitrary: t)
  case Nil
  then show ?case by simp
next
  case (Cons r regs)
  have "LookupEntry k (SetEntry (fst r) (snd r) t) = Some e"
    using Cons.prems
    by (cases "k = fst r") (simp_all add: LookupEntry_SetEntry_same LookupEntry_SetEntry_other)
  then show ?case using Cons.IH by (cases r) simp
qed

text \<open>
  Claim C2. Registration is first-wins: whatever the table, a \<open>SetEntry\<close> of \<open>e2\<close>
  under \<open>k\<close> after a \<open>SetEntry\<close> of \<open>e1\<close> under \<open>k\<close> changes nothing; and when the
  first call registered \<open>e1\<close> (the key was absent before it), \<open>LookupEntry\<close> and
  \<open>GetEntry\<close> both return \<open>e1\<close> after the second call, \<open>GetEntry\<close> without touching
  the table or the loader. The same holds when other registrations come between the
  two calls.
\<close>

theorem SetEntry_first_wins:
  "SetEntry k e2 (SetEntry k e1 t) = SetEntry k e1 t
   \<and> (LookupEntry k t = None \<longrightarrow>
        LookupEntry k (SetEntry k e1 t) = Some e1
      \<and> LookupEntry k (SetEntry k e2 (SetEntry k e1 t)) = Some e1
      \<and> GetEntry nd conv dl e0 k (SetEntry k e2 (SetEntry k e1 t)) = (e1, SetEntry k e1 t)
      \<and> LookupEntry k (SetEntry k e2 (RunRegisterers regs (SetEntry k e1 t))) = Some e1)"
proof -
  have later: "LookupEntry k (SetEntry k e2 (RunRegisterers regs (SetEntry k e1 t))) = Some e1"
    if "LookupEntry k t = None"
  proof -
    have "LookupEntry k (SetEntry k e1 t) = Some e1"
      using that by (simp add: LookupEntry_SetEntry_same)
    then have "LookupEntry k (RunRegisterers regs (SetEntry k e1 t)) = Some e1"
      by (rule LookupEntry_RunRegisterers_kept)
    then show ?thesis by (simp add: LookupEntry_SetEntry_same)
  qed
  have same: "SetEntry k e2 (SetEntry k e1 t) = SetEntry k e1 t"
    by (simp add: SetEntry_def split: option.splits)
  have stored: "LookupEntry k (SetEntry k e1 t) = Some e1" if "LookupEntry k t = None"
    using that by (simp add: LookupEntry_SetEntry_same)
  have got: "GetEntry nd conv dl e0 k (SetEntry k e2 (SetEntry k e1 t)) = (e1, SetEntry k e1 t)"
    if "LookupEntry k t = None"
    using stored [OF that] by (simp add: same GetEntry_hit)
  show ?thesis using same stored got later by simp
qed

theorem SetEntry_first_wins_witness:
  "LookupEntry ''vector'' (Map.empty :: (string, int) RegisterMapType) = None
   \<and> SetEntry ''vector'' 2 (SetEntry ''vector'' 1 Map.empty)
       = SetEntry ''vector'' (1 :: int) Map.empty
   \<and> LookupEntry ''vector'' (SetEntry ''vector'' 2 (SetEntry ''vector'' (1 :: int) Map.empty))
       = Some 1
   \<and> fst (GetEntry False (\<lambda>k. k @ ''-fst.so'') (\<lambda>f. None) 0 ''vector''
        (SetEntry ''vector'' 2 (SetEntry ''vector'' (1 :: int) Map.empty))) = 1"
proof -
  have h: "LookupEntry ''vector'' (Map.empty :: (string, int) RegisterMapType) = None"
    by (simp add: LookupEntry_def)
  note fw = SetEntry_first_wins [where k = "''vector''" and ?e2.0 = "2 :: int" and ?e1.0 = 1
        and t = Map.empty and nd = False and conv = "\<lambda>k. k @ ''-fst.so''"
        and dl = "\<lambda>f. None" and ?e0.0 = 0]
  have a: "SetEntry ''vector'' 2 (SetEntry ''vector'' 1 Map.empty)
           = SetEntry ''vector'' (1 :: int) Map.empty"
    using fw by (rule conjunct1)
  have b: "LookupEntry ''vector'' (SetEntry ''vector'' 2 (SetEntry ''vector'' (1 :: int) Map.empty))
           = Some 1"
    using fw h by blast
  have "GetEntry False (\<lambda>k. k @ ''-fst.so'') (\<lambda>f. None) 0 ''vector''
          (SetEntry ''vector'' 2 (SetEntry ''vector'' (1 :: int) Map.empty))
        = (1, SetEntry ''vector'' 1 Map.empty)"
    using fw h by blast
  then have c: "fst (GetEntry False (\<lambda>k. k @ ''-fst.so'') (\<lambda>f. None) 0 ''vector''
          (SetEntry ''vector'' 2 (SetEntry ''vector'' (1 :: int) Map.empty))) = 1"
    by (rule arg_cong [where f = fst, THEN trans]) simp
  show ?thesis by (intro conjI h a b c)
qed

text \<open>
  Claim C4. When the key has no registered entry and the fallback fails, \<open>GetEntry\<close>
  returns the value-initialised entry: whether the build has no dynamic linking, the
  loader returns no handle, or the load succeeds and the lookup after it still misses.
  The result is an entry in every case; the function has no other outcome.
\<close>

theorem GetEntry_miss_gives_default:
  assumes "LookupEntry key t = None"
    and "nd \<or> dl (conv key) = None
         \<or> (\<exists>regs. dl (conv key) = Some regs \<and> LookupEntry key (RunRegisterers regs t) = None)"
  shows "fst (GetEntry nd conv dl e0 key t) = e0"
  using assms
  by (auto simp: GetEntry_def LoadEntryFromSharedObject_def Let_def split: option.splits)

theorem GetEntry_miss_gives_default_witness:
  "LookupEntry ''const'' (SetEntry ''vector'' (1 :: int) Map.empty) = None
   \<and> fst (GetEntry False (\<lambda>k. k @ ''-fst.so'') (\<lambda>f. None) 0 ''const''
        (SetEntry ''vector'' (1 :: int) Map.empty)) = 0
   \<and> fst (GetEntry False (\<lambda>k. k @ ''-fst.so'')
        (\<lambda>f. if f = ''const-fst.so'' then Some [(''compact'', 7)] else None) 0 ''const''
        (SetEntry ''vector'' (1 :: int) Map.empty)) = 0"
proof -
  let ?t = "SetEntry ''vector'' (1 :: int) Map.empty"
  let ?dl = "\<lambda>f. if f = ''const-fst.so'' then Some [(''compact'', 7 :: int)] else None"
  have h: "LookupEntry ''const'' ?t = None"
    by (simp add: LookupEntry_def SetEntry_def)
  let ?no = "\<lambda>f :: string. None :: (string \<times> int) list option"
  have f1: "False \<or> ?no (''const'' @ ''-fst.so'') = None
         \<or> (\<exists>regs. ?no (''const'' @ ''-fst.so'') = Some regs
              \<and> LookupEntry ''const'' (RunRegisterers regs ?t) = None)"
    by simp
  have f2: "False \<or> ?dl (''const'' @ ''-fst.so'') = None
         \<or> (\<exists>regs. ?dl (''const'' @ ''-fst.so'') = Some regs
              \<and> LookupEntry ''const'' (RunRegisterers regs ?t) = None)"
    by (simp add: LookupEntry_def SetEntry_def)
  show ?thesis
    using h
      GetEntry_miss_gives_default [where key = "''const''" and t = ?t and nd = False
        and conv = "\<lambda>k. k @ ''-fst.so''" and dl = ?no and ?e0.0 = 0, OF h f1]
      GetEntry_miss_gives_default [where key = "''const''" and t = ?t and nd = False
        and conv = "\<lambda>k. k @ ''-fst.so''" and dl = ?dl and ?e0.0 = 0, OF h f2]
    by simp
qed

text \<open>
  Claim C10. \<open>SetEntry\<close> under \<open>k\<close> changes no other key: \<open>LookupEntry\<close> of every key
  distinct from \<open>k\<close> gives the same result before and after, and every pair registered
  before the call (under \<open>k\<close> or not) is still found by \<open>LookupEntry\<close> with the entry it
  had.
\<close>

theorem SetEntry_frame:
  "(\<forall>k'. k' \<noteq> k \<longrightarrow> LookupEntry k' (SetEntry k e t) = LookupEntry k' t)
   \<and> (\<forall>k' e'. LookupEntry k' t = Some e' \<longrightarrow> LookupEntry k' (SetEntry k e t) = Some e')"
proof (intro conjI allI impI)
  fix k' assume "k' \<noteq> k"
  then show "LookupEntry k' (SetEntry k e t) = LookupEntry k' t"
    by (rule LookupEntry_SetEntry_other)
next
  fix k' e' assume r: "LookupEntry k' t = Some e'"
  show "LookupEntry k' (SetEntry k e t) = Some e'"
  proof (cases "k' = k")
    case True
    then show ?thesis using r by (simp add: LookupEntry_SetEntry_same)
  next
    case False
    then show ?thesis using r by (simp add: LookupEntry_SetEntry_other)
  qed
qed

theorem SetEntry_frame_witness:
  "''const'' \<noteq> ''vector''
   \<and> LookupEntry ''vector'' (SetEntry ''vector'' (1 :: int) Map.empty) = Some 1
   \<and> LookupEntry ''vector'' (SetEntry ''const'' 2 (SetEntry ''vector'' (1 :: int) Map.empty))
       = Some 1
   \<and> LookupEntry ''vector'' (SetEntry ''vector'' 3 (SetEntry ''vector'' (1 :: int) Map.empty))
       = Some 1
   \<and> LookupEntry ''compact'' (SetEntry ''const'' 2 (SetEntry ''vector'' (1 :: int) Map.empty))
       = LookupEntry ''compact'' (SetEntry ''vector'' (1 :: int) Map.empty)"
proof -
  let ?t = "SetEntry ''vector'' (1 :: int) Map.empty"
  have r: "LookupEntry ''vector'' ?t = Some 1"
    by (simp add: LookupEntry_def SetEntry_def)
  have d: "''compact'' \<noteq> ''const''" by simp
  show ?thesis
    using r d SetEntry_frame [where k = "''const''" and e = 2 and t = ?t]
      SetEntry_frame [where k = "''vector''" and e = 3 and t = ?t]
    by simp
qed

end
